theory Spec2Isabelle
  imports Complex_Main
begin

section \<open>Python floats\<close>

text \<open>
  The notebook computes with Python floats (IEEE 754 binary64). A finite float is read as
  the real number it denotes; every literal and every arithmetic result is rounded to the
  nearest binary64 value, ties to even. All values of the notebook lie in the normal range,
  so overflow and subnormal numbers are not modelled.
\<close>

definition pow2 :: "int \<Rightarrow> real" where
  "pow2 e = (if 0 \<le> e then 2 ^ nat e else 1 / 2 ^ nat (- e))"

text \<open>Number of binary digits of a natural number.\<close>

fun bit_length :: "nat \<Rightarrow> nat" where
  "bit_length m = (if m = 0 then 0 else Suc (bit_length (m div 2)))"

text \<open>The binary exponent of a non-zero number: \<open>2 ^ binade x \<le> \<bar>x\<bar> < 2 ^ (binade x + 1)\<close>.\<close>

definition binade :: "real \<Rightarrow> int" where
  "binade x =
     (if 1 \<le> \<bar>x\<bar> then int (bit_length (nat \<lfloor>\<bar>x\<bar>\<rfloor>)) - 1
      else - int (bit_length (nat \<lceil>1 / \<bar>x\<bar>\<rceil> - 1)))"

definition round_half_even :: "real \<Rightarrow> int" where
  "round_half_even x =
     (let f = \<lfloor>x\<rfloor>; d = x - of_int f
      in if d < 1 / 2 then f
         else if 1 / 2 < d then f + 1
         else if even f then f else f + 1)"

text \<open>Rounding to binary64: 53 significant bits, so the unit in the last place of \<open>x\<close>
  is \<open>2 ^ (binade x - 52)\<close>.\<close>

definition fl :: "real \<Rightarrow> real" where
  "fl x = (if x = 0 then 0
           else let u = pow2 (binade x - 52)
                in of_int (round_half_even (x / u)) * u)"

text \<open>Python's \<open>a - b\<close> and \<open>a * b\<close> on floats; an int operand is converted first.\<close>

definition float_of_int :: "int \<Rightarrow> real" where
  "float_of_int i = fl (of_int i)"

definition fsub :: "real \<Rightarrow> real \<Rightarrow> real" where
  "fsub a b = fl (a - b)"

definition fmul :: "real \<Rightarrow> real \<Rightarrow> real" where
  "fmul a b = fl (a * b)"

text \<open>A float that may be \<open>nan\<close>: the elements of \<open>pop\<close> and the oracle's result.
  Every ordering comparison with \<open>nan\<close> is false.\<close>

datatype pyfloat = Float real | NaN

fun py_lt :: "pyfloat \<Rightarrow> pyfloat \<Rightarrow> bool" where
  "py_lt (Float a) (Float b) = (a < b)"
| "py_lt _ _ = False"

section \<open>The notebook's state\<close>

datatype error = ValueError | IndexError

text \<open>
  The global variables of the kernel that the code cells read and write, and the state of
  numpy's global generator (\<open>rng\<close>). \<open>n\<close>, \<open>sample\<close> and \<open>pval\<close> are unbound until the
  loop assigns them.
\<close>

record 'g env =
  lambda1 :: real
  lambda2 :: real
  alpha1 :: real
  alpha2 :: real
  margin :: int
  N1 :: int
  N2 :: int
  pop :: "pyfloat list"
  c :: real
  n :: "nat option"
  sample :: "pyfloat list option"
  pval :: "pyfloat option"
  rng :: 'g

text \<open>
  The functions the notebook imports and does not define: numpy's seeding, numpy's bounded
  integer draw (an index below the bound, and the advanced generator state), and the
  p-value oracle \<open>trihypergeometric_optim(sample, popsize, null_margin)\<close>. They are
  parameters of the model: deterministic functions that always return, the oracle with a
  float that may be \<open>nan\<close>.
\<close>

record 'g extern =
  np_seed :: "nat \<Rightarrow> 'g"
  np_randint :: "'g \<Rightarrow> nat \<Rightarrow> nat \<times> 'g"
  trihypergeometric_optim :: "pyfloat list \<Rightarrow> int \<Rightarrow> real \<Rightarrow> pyfloat"

text \<open>What the cell prints and how it ends: the \<open>c=\<close> line, the \<open>n= , pvalue=\<close> lines in
  order, and either the exception that stopped the cell or the final state.\<close>

record 'g run =
  printed_c :: real
  printed :: "(nat \<times> pyfloat) list"
  outcome :: "error + 'g env"

section \<open>The code cells\<close>

text \<open>
  \<^verbatim>\<open>lambda1 = 0.9; lambda2 = 1-lambda1; alpha1 = 0.01; alpha2 = 0.0404\<close>
  \<^verbatim>\<open>margin = 389000; N1 = 1900000; N2 = 100000\<close>
\<close>

definition cell2 :: "'g env \<Rightarrow> 'g env" where
  "cell2 e0 =
     (let e1 = e0\<lparr>lambda1 := fl (9 / 10)\<rparr>;
          e2 = e1\<lparr>lambda2 := fsub (float_of_int 1) (lambda1 e1)\<rparr>;
          e3 = e2\<lparr>alpha1 := fl (1 / 100)\<rparr>;
          e4 = e3\<lparr>alpha2 := fl (404 / 10000)\<rparr>;
          e5 = e4\<lparr>margin := 389000\<rparr>;
          e6 = e5\<lparr>N1 := 1900000\<rparr>
      in e6\<lparr>N2 := 100000\<rparr>)"

text \<open>\<^verbatim>\<open>range(start, stop, step)\<close> for a positive step: \<open>start, start + step, ...\<close> while
  below \<open>stop\<close>. (A zero step raises in Python; the notebook's only call has step 20.)\<close>

function py_range :: "nat \<Rightarrow> nat \<Rightarrow> nat \<Rightarrow> nat list" where
  "py_range start stop step =
     (if step = 0 \<or> stop \<le> start then []
      else start # py_range (start + step) stop step)"
  by pat_completeness auto
termination
  by (relation "measure (\<lambda>(start, stop, step). stop - start)") auto

text \<open>
  \<^verbatim>\<open>np.random.choice(a, size)\<close> as the notebook calls it: \<open>replace\<close> keeps its default
  \<open>True\<close> and no probabilities are given, so numpy draws \<open>size\<close> indices below \<open>len(a)\<close>
  one after the other from the global generator and returns \<open>a[indices]\<close>, a new array.
  An empty \<open>a\<close> raises \<open>ValueError\<close>; an index out of range would raise \<open>IndexError\<close>.
\<close>

primrec draw_indices :: "('g \<Rightarrow> nat \<Rightarrow> nat \<times> 'g) \<Rightarrow> nat \<Rightarrow> nat \<Rightarrow> 'g \<Rightarrow> nat list \<times> 'g" where
  "draw_indices ri high 0 g = ([], g)"
| "draw_indices ri high (Suc k) g =
     (let (i, g1) = ri g high;
          (js, g2) = draw_indices ri high k g1
      in (i # js, g2))"

primrec take_at :: "'a list \<Rightarrow> nat list \<Rightarrow> error + 'a list" where
  "take_at a [] = Inr []"
| "take_at a (i # js) =
     (if i < length a
      then (case take_at a js of Inl err \<Rightarrow> Inl err | Inr xs \<Rightarrow> Inr (a ! i # xs))
      else Inl IndexError)"

definition choice :: "('g \<Rightarrow> nat \<Rightarrow> nat \<times> 'g) \<Rightarrow> 'g \<Rightarrow> 'a list \<Rightarrow> nat \<Rightarrow> error + ('a list \<times> 'g)" where
  "choice ri g a sz =
     (if a = [] then Inl ValueError
      else let (idx, g') = draw_indices ri (length a) sz g
           in case take_at a idx of
                Inl err \<Rightarrow> Inl err
              | Inr s \<Rightarrow> Inr (s, g'))"

text \<open>
  One pass through the loop body for the candidate \<open>k\<close>, up to and including the print:
  \<^verbatim>\<open>sample = np.random.choice(pop, n)\<close>
  \<^verbatim>\<open>pval = trihypergeometric_optim(sample, popsize=N2, null_margin=c)\<close>
  \<^verbatim>\<open>print("n=", n, ", pvalue=", pval)\<close>
  The result is the new state and the p-value printed, or the exception raised.
\<close>

definition body :: "'g extern \<Rightarrow> nat \<Rightarrow> 'g env \<Rightarrow> error + ('g env \<times> pyfloat)" where
  "body X k e =
     (let e1 = e\<lparr>n := Some k\<rparr>
      in case choice (np_randint X) (rng e1) (pop e1) k of
           Inl err \<Rightarrow> Inl err
         | Inr (s, g') \<Rightarrow>
             let e2 = e1\<lparr>sample := Some s, rng := g'\<rparr>;
                 p = trihypergeometric_optim X s (N2 e2) (c e2);
                 e3 = e2\<lparr>pval := Some p\<rparr>
             in Inr (e3, p))"

text \<open>
  \<^verbatim>\<open>for n in <candidates>: <body>; if pval < alpha2: break\<close>
  The result is the list of lines printed and the way the loop ended.
\<close>

fun for_loop :: "'g extern \<Rightarrow> nat list \<Rightarrow> 'g env \<Rightarrow> (nat \<times> pyfloat) list \<times> (error + 'g env)" where
  "for_loop X [] e = ([], Inr e)"
| "for_loop X (k # ks) e =
     (case body X k e of
        Inl err \<Rightarrow> ([], Inl err)
      | Inr (e', p) \<Rightarrow>
          if py_lt p (Float (alpha2 e')) then ([(k, p)], Inr e')
          else (let (ls, r) = for_loop X ks e' in ((k, p) # ls, r)))"

text \<open>
  \<open>passes X e ls e'\<close>: running the body on the candidates of \<open>ls\<close> one after the other,
  from the state \<open>e\<close>, raises nothing, yields the p-values of \<open>ls\<close> and ends in the state
  \<open>e'\<close>. It is used to say that the lines the loop prints are consecutive passes through
  the body.
\<close>

fun passes :: "'g extern \<Rightarrow> 'g env \<Rightarrow> (nat \<times> pyfloat) list \<Rightarrow> 'g env \<Rightarrow> bool" where
  "passes X e [] e' = (e' = e)"
| "passes X e ((k, p) # ls) e' =
     (case body X k e of
        Inl err \<Rightarrow> False
      | Inr (e1, q) \<Rightarrow> q = p \<and> passes X e1 ls e')"

text \<open>
  \<^verbatim>\<open>np.random.seed(292018)\<close>
  \<^verbatim>\<open>pop = np.array([0]*52500 + [1]*42500 + [np.nan]*5000)\<close>
  \<^verbatim>\<open>c = (42500-52500) - lambda2*margin\<close>
  \<^verbatim>\<open>print("c= ", c)\<close>
  \<^verbatim>\<open>for n in range(20, 10000, 20): ...\<close>
\<close>

definition cell7_init :: "'g extern \<Rightarrow> 'g env \<Rightarrow> 'g env" where
  "cell7_init X e0 =
     (let e1 = e0\<lparr>rng := np_seed X 292018\<rparr>;
          e2 = e1\<lparr>pop := replicate 52500 (Float 0) @ replicate 42500 (Float 1)
                           @ replicate 5000 NaN\<rparr>
      in e2\<lparr>c := fsub (float_of_int (42500 - 52500))
                      (fmul (lambda2 e2) (float_of_int (margin e2)))\<rparr>)"

definition cell7 :: "'g extern \<Rightarrow> 'g env \<Rightarrow> 'g run" where
  "cell7 X e0 =
     (let e3 = cell7_init X e0;
          (ls, r) = for_loop X (py_range 20 10000 20) e3
      in \<lparr>printed_c = c e3, printed = ls, outcome = r\<rparr>)"

section \<open>Concrete instances\<close>

text \<open>
  A kernel in which no cell has run yet, and two stand-ins for the imported functions,
  used to run the cells on concrete inputs. Both generators start at the seed and step
  by one; \<open>stub\<close> draws the index \<open>g mod high\<close> and its oracle returns \<open>1 / len(sample)\<close>,
  \<open>never\<close> always draws index 0 and its oracle always returns 1.
\<close>

definition fresh :: "nat env" where
  "fresh = \<lparr>lambda1 = 0, lambda2 = 0, alpha1 = 0, alpha2 = 0, margin = 0, N1 = 0, N2 = 0,
             pop = [], c = 0, n = None, sample = None, pval = None, rng = 0\<rparr>"

definition stub :: "nat extern" where
  "stub = \<lparr>np_seed = (\<lambda>s. s),
            np_randint = (\<lambda>g high. (g mod high, Suc g)),
            trihypergeometric_optim = (\<lambda>s N m. Float (1 / real (length s)))\<rparr>"

definition never :: "nat extern" where
  "never = \<lparr>np_seed = (\<lambda>s. s),
             np_randint = (\<lambda>g high. (0, Suc g)),
             trihypergeometric_optim = (\<lambda>s N m. Float 1)\<rparr>"

text \<open>A small population and a risk limit of 3/8, for runs short enough to follow by hand.\<close>

definition tiny :: "nat env" where
  "tiny = fresh\<lparr>alpha2 := 3 / 8, N2 := 3, pop := [Float 0, Float 1, NaN]\<rparr>"

section \<open>Evaluating the float model\<close>

declare bit_length.simps [simp del]

lemma bit_length_0 [simp]: "bit_length 0 = 0"
  by (simp add: bit_length.simps)

lemma bit_length_Suc_0 [simp]: "bit_length (Suc 0) = Suc 0"
  by (simp add: bit_length.simps)

lemma bit_length_numeral [simp]:
  "bit_length (numeral w) = Suc (bit_length (numeral w div 2))"
  by (subst bit_length.simps) simp

lemmas fl_eval = fl_def binade_def pow2_def round_half_even_def Let_def

text \<open>
  The model rounds to nearest: \<open>binade\<close> is the binary exponent, and \<open>fl x\<close> is a
  multiple of the unit in the last place at most half a unit away from \<open>x\<close>.
\<close>

lemma bit_length_bounds:
  "0 < m \<Longrightarrow> 2 ^ (bit_length m - 1) \<le> m \<and> m < 2 ^ bit_length m"
proof (induction m rule: bit_length.induct)
  case (1 m)
  show ?case
  proof (cases "m div 2 = 0")
    case True
    with "1.prems" have "m = 1" by (simp add: div_eq_0_iff) 
    then show ?thesis by (simp add: bit_length.simps)
  next
    case False
    then have pos: "0 < m div 2" by simp
    from "1.prems" have bl: "bit_length m = Suc (bit_length (m div 2))"
      by (subst bit_length.simps) simp
    from "1.IH" "1.prems" pos
    have ih: "2 ^ (bit_length (m div 2) - 1) \<le> m div 2 \<and> m div 2 < 2 ^ bit_length (m div 2)"
      by simp
    from pos have b1: "0 < bit_length (m div 2)"
      by (subst bit_length.simps) simp
    then have e: "(2::nat) ^ bit_length (m div 2) = 2 * 2 ^ (bit_length (m div 2) - 1)"
      by (cases "bit_length (m div 2)") simp_all
    have "2 * (m div 2) \<le> m" by simp
    with ih e have lo: "2 ^ bit_length (m div 2) \<le> m" by linarith
    have "m < 2 * (m div 2) + 2" by presburger
    with ih have hi: "m < 2 * 2 ^ bit_length (m div 2)" by linarith
    from lo hi bl show ?thesis by simp
  qed
qed

lemma binade_bounds:
  assumes "x \<noteq> 0"
  shows "pow2 (binade x) \<le> \<bar>x\<bar> \<and> \<bar>x\<bar> < pow2 (binade x + 1)"
proof (cases "1 \<le> \<bar>x\<bar>")
  case True
  let ?m = "nat \<lfloor>\<bar>x\<bar>\<rfloor>"
  from True have m: "0 < ?m" by simp
  note b = bit_length_bounds [OF m]
  from m have bl: "0 < bit_length ?m" by (subst bit_length.simps) simp
  have e: "binade x = int (bit_length ?m) - 1" using True by (simp add: binade_def)
  have p1: "pow2 (binade x) = 2 ^ (bit_length ?m - 1)"
    using bl by (simp add: e pow2_def nat_diff_distrib)
  have p2: "pow2 (binade x + 1) = 2 ^ bit_length ?m"
    by (simp add: e pow2_def)
  have a1: "real ?m \<le> \<bar>x\<bar>" using True by (simp add: of_nat_nat)
  have a2: "\<bar>x\<bar> < real ?m + 1" using True by (simp add: of_nat_nat)
  from b have a3: "(2::real) ^ (bit_length ?m - 1) \<le> real ?m"
    by (metis of_nat_le_iff of_nat_numeral of_nat_power)
  from b have a4: "real ?m + 1 \<le> 2 ^ bit_length ?m"
    by (metis Suc_leI of_nat_Suc of_nat_le_iff of_nat_numeral of_nat_power add.commute)
  from a1 a3 have "(2::real) ^ (bit_length ?m - 1) \<le> \<bar>x\<bar>" by linarith
  moreover from a2 a4 have "\<bar>x\<bar> < 2 ^ bit_length ?m" by linarith
  ultimately show ?thesis by (simp only: p1 p2)
next
  case False
  define y where "y = 1 / \<bar>x\<bar>"
  define m where "m = nat \<lceil>y\<rceil>"
  define b where "b = bit_length (m - 1)"
  from False assms have x: "0 < \<bar>x\<bar>" "\<bar>x\<bar> < 1" by simp_all
  then have y: "1 < y" by (simp add: y_def)
  then have c2: "2 \<le> \<lceil>y\<rceil>" by linarith
  then have m2: "2 \<le> m" unfolding m_def by linarith
  then have m1: "0 < m - 1" by simp
  from bit_length_bounds [OF m1]
  have b1: "2 ^ (b - 1) \<le> m - 1" and b2: "m - 1 < 2 ^ b" by (simp_all add: b_def)
  from m1 have bl: "0 < b" unfolding b_def by (subst bit_length.simps) simp
  have e: "binade x = - int b" using False by (simp add: binade_def b_def m_def y_def)
  have p1: "pow2 (binade x) = 1 / 2 ^ b"
    by (simp add: e pow2_def)
  have "nat (1 - int b) = 0" using bl by simp
  have p2: "pow2 (binade x + 1) = 1 / 2 ^ (b - 1)"
  proof (cases "b = 1")
    case True
    then show ?thesis by (simp add: e pow2_def)
  next
    case False
    with bl have "1 < b" by simp
    then have "nat (int b - 1) = b - 1" by arith
    with \<open>1 < b\<close> show ?thesis by (simp add: e pow2_def)
  qed
  have "real_of_int \<lceil>y\<rceil> = real m" using c2 unfolding m_def by (simp only: of_nat_nat)
  then have my: "y \<le> real m" and ym: "real m - 1 < y" by linarith+
  from b2 m2 have "m \<le> 2 ^ b" by simp
  then have "real m \<le> real (2 ^ b)" by (simp only: of_nat_le_iff)
  then have "real m \<le> 2 ^ b" by simp
  with my have up: "y \<le> 2 ^ b" by linarith
  from b1 have "real (2 ^ (b - 1)) \<le> real (m - 1)" by (simp only: of_nat_le_iff)
  then have "(2::real) ^ (b - 1) \<le> real (m - 1)" by simp
  moreover from m1 have "real (m - 1) = real m - 1" by (simp add: of_nat_diff)
  ultimately have lo: "2 ^ (b - 1) < y" using ym by linarith
  from up x have "1 / 2 ^ b \<le> \<bar>x\<bar>"
    by (simp add: y_def field_simps)
  moreover from lo x have "\<bar>x\<bar> < 1 / 2 ^ (b - 1)"
    by (simp add: y_def field_simps)
  ultimately show ?thesis by (simp only: p1 p2)
qed


lemma pow2_pos: "0 < pow2 k"
  by (simp add: pow2_def)

lemma round_half_even_close: "\<bar>real_of_int (round_half_even r) - r\<bar> \<le> 1 / 2"
proof -
  have "real_of_int \<lfloor>r\<rfloor> \<le> r" and "r < real_of_int \<lfloor>r\<rfloor> + 1" by linarith+
  then show ?thesis by (auto simp: round_half_even_def Let_def)
qed

lemma fl_error: "\<bar>fl x - x\<bar> \<le> pow2 (binade x - 52) / 2"
proof (cases "x = 0")
  case True
  then show ?thesis using pow2_pos [of "binade x - 52"] by (simp add: fl_def)
next
  case False
  define u where "u = pow2 (binade x - 52)"
  define j where "j = round_half_even (x / u)"
  have u: "0 < u" unfolding u_def by (rule pow2_pos)
  have f: "fl x = real_of_int j * u" using False by (simp add: fl_def Let_def u_def j_def)
  have "fl x - x = (real_of_int j - x / u) * u" using u by (simp add: f field_simps)
  then have "\<bar>fl x - x\<bar> = \<bar>real_of_int j - x / u\<bar> * u" using u by (simp add: abs_mult)
  also have "\<dots> \<le> (1 / 2) * u"
    using round_half_even_close [of "x / u"] u unfolding j_def by (intro mult_right_mono) simp_all
  finally show ?thesis by (simp add: u_def)
qed

section \<open>The notebook's constants as doubles\<close>

text \<open>The literal \<open>0.9\<close> is the double \<open>0x3FECCCCCCCCCCCCD\<close>, slightly above 9/10.\<close>

lemma lambda1_value: "fl (9 / 10) = 8106479329266893 / 2 ^ 53"
  by (simp add: fl_eval)

text \<open>\<open>1 - 0.9\<close> is exact, and is two units in the last place below the literal \<open>0.1\<close>:
  it prints as 0.09999999999999998, and one double lies between the two.\<close>

lemma lambda2_value: "fsub (float_of_int 1) (fl (9 / 10)) = 900719925474099 / 2 ^ 53"
  by (simp add: lambda1_value fsub_def float_of_int_def) (simp add: fl_eval)

lemma literal_tenth: "fl (1 / 10) = 3602879701896397 / 2 ^ 55"
  by (simp add: fl_eval)

lemma between_double: "fl (7205759403792793 / 2 ^ 56) = 7205759403792793 / 2 ^ 56"
  unfolding fl_def by (simp add: binade_def pow2_def round_half_even_def Let_def)

lemma product_value:
  "fmul (900719925474099 / 2 ^ 53) (float_of_int 389000) = 38900 - 1 / 2 ^ 37"
  by (simp add: fmul_def float_of_int_def fl_eval)

lemma difference_value:
  "fsub (float_of_int (42500 - 52500)) (38900 - 1 / 2 ^ 37) = - 48900 + 1 / 2 ^ 37"
  by (simp add: fsub_def float_of_int_def fl_eval)

lemma alpha2_value: "fl (404 / 10000) = 5822253598264577 / 2 ^ 57"
  unfolding fl_def by (simp add: binade_def pow2_def round_half_even_def Let_def)

section \<open>The parameter cell\<close>

lemma cell2_lambda2: "lambda2 (cell2 e) = 900719925474099 / 2 ^ 53"
  by (simp add: cell2_def Let_def lambda2_value)

lemma cell2_margin: "margin (cell2 e) = 389000"
  by (simp add: cell2_def Let_def)

lemma cell2_alpha2: "alpha2 (cell2 e) = 5822253598264577 / 2 ^ 57"
proof -
  have "alpha2 (cell2 e) = fl (404 / 10000)"
    by (simp add: cell2_def Let_def)
  then show ?thesis by (simp only: alpha2_value)
qed

lemma cell2_N2: "N2 (cell2 e) = 100000"
  by (simp add: cell2_def Let_def)

section \<open>The candidate sample sizes\<close>

declare py_range.simps [simp del]

lemma py_range_steps:
  "0 < s \<Longrightarrow> py_range a (a + m * s) s = map (\<lambda>i. a + i * s) [0..<m]"
proof (induction m arbitrary: a)
  case 0
  then show ?case by (simp add: py_range.simps)
next
  case (Suc m)
  have "py_range a (a + Suc m * s) s = a # py_range (a + s) (a + s + m * s) s"
    using Suc.prems by (subst py_range.simps) (simp add: add.assoc)
  also have "py_range (a + s) (a + s + m * s) s = map (\<lambda>i. a + s + i * s) [0..<m]"
    using Suc by simp
  also have "a # map (\<lambda>i. a + s + i * s) [0..<m] = map (\<lambda>i. a + i * s) [0..<Suc m]"
    by (simp add: upt_conv_Cons map_Suc_upt [symmetric] del: upt_Suc)
  finally show ?case .
qed


text \<open>\<^verbatim>\<open>range(20, 10000, 20)\<close> is 20, 40, ..., 9980: 499 candidates, the stop value excluded.\<close>

lemma candidates: "py_range 20 10000 20 = map (\<lambda>i. 20 + i * 20) [0..<499]"
  using py_range_steps [of 20 20 499] by simp

lemma candidates_Cons: "py_range 20 10000 20 = 20 # py_range 40 10000 20"
  by (subst py_range.simps) simp


lemma candidates_two: "py_range 20 10000 20 = 20 # 40 # py_range 60 10000 20"
  by (subst py_range.simps, simp, subst py_range.simps, simp)

section \<open>Drawing the sample\<close>

lemma draw_indices_length: "length (fst (draw_indices ri h k g)) = k"
proof (induction k arbitrary: g)
  case 0
  then show ?case by simp
next
  case (Suc k)
  obtain j g1 where r: "ri g h = (j, g1)" by (cases "ri g h")
  obtain js g2 where d: "draw_indices ri h k g1 = (js, g2)" by (cases "draw_indices ri h k g1")
  from Suc.IH [of g1] d have "length js = k" by simp
  with r d show ?case by simp
qed

lemma draw_indices_bound:
  "(\<And>g'. fst (ri g' h) < h) \<Longrightarrow> i \<in> set (fst (draw_indices ri h k g)) \<Longrightarrow> i < h"
proof (induction k arbitrary: g)
  case 0
  then show ?case by simp
next
  case (Suc k)
  obtain j g1 where r: "ri g h = (j, g1)" by (cases "ri g h")
  obtain js g2 where d: "draw_indices ri h k g1 = (js, g2)" by (cases "draw_indices ri h k g1")
  from Suc.prems(2) r d have "i = j \<or> i \<in> set js" by (simp add: Let_def)
  then show ?case
  proof
    assume "i = j"
    with Suc.prems(1) [of g] r show ?thesis by simp
  next
    assume "i \<in> set js"
    with Suc.IH [of g1] Suc.prems(1) d show ?thesis by simp
  qed
qed

lemma take_at_Inr: "take_at a js = Inr xs \<Longrightarrow> xs = map ((!) a) js \<and> (\<forall>i\<in>set js. i < length a)"
  by (induction js arbitrary: xs) (auto split: if_splits sum.splits)

lemma take_at_ok: "(\<And>i. i \<in> set js \<Longrightarrow> i < length a) \<Longrightarrow> take_at a js = Inr (map ((!) a) js)"
  by (induction js) auto

lemma choice_empty: "choice ri g [] k = Inl ValueError"
  by (simp add: choice_def)

lemma choice_Inr:
  assumes "choice ri g a k = Inr (s, g')"
  shows "length s = k \<and> set s \<subseteq> set a \<and> a \<noteq> []"
proof -
  from assms have ne: "a \<noteq> []" by (auto simp: choice_def split: if_splits)
  obtain idx g1 where d: "draw_indices ri (length a) k g = (idx, g1)"
    by (cases "draw_indices ri (length a) k g")
  from assms ne d have t: "take_at a idx = Inr s"
    by (auto simp: choice_def split: sum.splits)
  from take_at_Inr [OF t] have s: "s = map ((!) a) idx" and b: "\<forall>i\<in>set idx. i < length a"
    by simp_all
  have "length idx = k" using draw_indices_length [of ri "length a" k g] d by simp
  with s b ne show ?thesis by auto
qed

lemma choice_ok:
  assumes "a \<noteq> []" and "\<And>g'. fst (ri g' (length a)) < length a"
  shows "\<exists>s g'. choice ri g a k = Inr (s, g') \<and> length s = k"
proof -
  obtain idx g1 where d: "draw_indices ri (length a) k g = (idx, g1)"
    by (cases "draw_indices ri (length a) k g")
  have "\<And>i. i \<in> set idx \<Longrightarrow> i < length a"
    using draw_indices_bound [of ri "length a" _ k g] assms(2) d by simp
  then have t: "take_at a idx = Inr (map ((!) a) idx)" by (rule take_at_ok)
  have "length idx = k" using draw_indices_length [of ri "length a" k g] d by simp
  with assms(1) d t show ?thesis by (simp add: choice_def)
qed


section \<open>The loop body\<close>

lemma body_Inr:
  assumes "body X k e = Inr (e', p)"
  shows "\<exists>s g'. choice (np_randint X) (rng e) (pop e) k = Inr (s, g')
           \<and> p = trihypergeometric_optim X s (N2 e) (c e)
           \<and> e' = e\<lparr>n := Some k, sample := Some s, pval := Some p, rng := g'\<rparr>"
  using assms by (auto simp: body_def Let_def split: sum.splits prod.splits)

lemma body_frame:
  assumes "body X k e = Inr (e', p)"
  shows "e' = e\<lparr>n := Some k, sample := sample e', pval := Some p, rng := rng e'\<rparr>"
  using body_Inr [OF assms] by auto

lemma body_fixed:
  assumes "body X k e = Inr (e', p)"
  shows "lambda1 e' = lambda1 e \<and> lambda2 e' = lambda2 e \<and> alpha1 e' = alpha1 e
       \<and> alpha2 e' = alpha2 e \<and> margin e' = margin e \<and> N1 e' = N1 e \<and> N2 e' = N2 e
       \<and> pop e' = pop e \<and> c e' = c e \<and> env.more e' = env.more e"
  using body_Inr [OF assms] by auto

lemma body_overwrites:
  "body X k (e\<lparr>n := a, sample := b, pval := d\<rparr>) = body X k e"
  by (simp add: body_def Let_def split: sum.splits prod.splits)


text \<open>
  The sample of an iteration is drawn from \<open>pop\<close> itself and has exactly \<open>n\<close> elements,
  whatever the earlier iterations drew; the only link between iterations is the state of
  the generator.
\<close>

lemma body_sample:
  assumes "body X k e = Inr (e', p)"
  shows "\<exists>s g'. choice (np_randint X) (rng e) (pop e) k = Inr (s, g') \<and> sample e' = Some s
           \<and> rng e' = g' \<and> length s = k \<and> set s \<subseteq> set (pop e)"
proof -
  from body_Inr [OF assms] obtain s g'
    where ch: "choice (np_randint X) (rng e) (pop e) k = Inr (s, g')"
      and e': "e' = e\<lparr>n := Some k, sample := Some s, pval := Some p, rng := g'\<rparr>"
    by blast
  from choice_Inr [OF ch] have "length s = k" "set s \<subseteq> set (pop e)" by simp_all
  with ch e' show ?thesis by simp
qed

section \<open>The loop\<close>

lemma for_loop_Cons_cases:
  assumes "for_loop X (k # ks) e = (ls, r)"
  obtains
    (raised) err where "body X k e = Inl err" "ls = []" "r = Inl err"
  | (break) e1 p where "body X k e = Inr (e1, p)" "py_lt p (Float (alpha2 e))"
      "ls = [(k, p)]" "r = Inr e1"
  | (continue) e1 p ls1 where "body X k e = Inr (e1, p)" "\<not> py_lt p (Float (alpha2 e))"
      "for_loop X ks e1 = (ls1, r)" "ls = (k, p) # ls1" "alpha2 e1 = alpha2 e" "pop e1 = pop e"
proof (cases "body X k e")
  case (Inl err)
  with assms raised show ?thesis by simp
next
  case (Inr q)
  obtain e1 p where q: "q = (e1, p)" by (cases q)
  have a: "alpha2 e1 = alpha2 e" and b: "pop e1 = pop e"
    using body_fixed [of X k e e1 p] Inr q by simp_all
  show ?thesis
  proof (cases "py_lt p (Float (alpha2 e))")
    case True
    with assms Inr q a break show ?thesis by simp
  next
    case False
    obtain ls1 r1 where l: "for_loop X ks e1 = (ls1, r1)" by (cases "for_loop X ks e1")
    with assms Inr q a False have "ls = (k, p) # ls1" "r = r1" by simp_all
    with continue [of e1 p ls1] Inr q False l a b show ?thesis by simp
  qed
qed

lemma for_loop_fixed:
  "for_loop X ks e = (ls, Inr e') \<Longrightarrow>
     lambda1 e' = lambda1 e \<and> lambda2 e' = lambda2 e \<and> alpha1 e' = alpha1 e
       \<and> alpha2 e' = alpha2 e \<and> margin e' = margin e \<and> N1 e' = N1 e \<and> N2 e' = N2 e
       \<and> pop e' = pop e \<and> c e' = c e \<and> env.more e' = env.more e"
proof (induction ks arbitrary: e ls)
  case Nil
  then show ?case by simp
next
  case (Cons k ks)
  from Cons.prems obtain e1 p where b: "body X k e = Inr (e1, p)"
    by (auto split: sum.splits)
  note f = body_fixed [OF b]
  show ?case
  proof (cases "py_lt p (Float (alpha2 e1))")
    case True
    with Cons.prems b have "e' = e1" by simp
    with f show ?thesis by simp
  next
    case False
    obtain ls1 r1 where l: "for_loop X ks e1 = (ls1, r1)" by (cases "for_loop X ks e1")
    with Cons.prems b False have "r1 = Inr e'" by simp
    with l Cons.IH [of e1 ls1] f show ?thesis by simp
  qed
qed

lemma for_loop_frame:
  assumes "for_loop X ks e = (ls, Inr e')"
  shows "e' = e\<lparr>n := n e', sample := sample e', pval := pval e', rng := rng e'\<rparr>"
  using for_loop_fixed [OF assms] by (intro env.equality) simp_all

lemma for_loop_prefix:
  "for_loop X ks e = (ls, r) \<Longrightarrow> map fst ls = take (length ls) ks"
proof (induction ks arbitrary: e ls)
  case Nil
  then show ?case by simp
next
  case (Cons k ks)
  from Cons.prems show ?case
  proof (cases rule: for_loop_Cons_cases)
    case (continue e1 p ls1)
    with Cons.IH [of e1 ls1] show ?thesis by simp
  qed simp_all
qed

lemma for_loop_length: "for_loop X ks e = (ls, r) \<Longrightarrow> length ls \<le> length ks"
proof -
  assume "for_loop X ks e = (ls, r)"
  then have "length (map fst ls) = length (take (length ls) ks)"
    by (simp only: for_loop_prefix)
  then show ?thesis by simp
qed

lemma for_loop_butlast:
  "for_loop X ks e = (ls, r) \<Longrightarrow> l \<in> set (butlast ls) \<Longrightarrow> \<not> py_lt (snd l) (Float (alpha2 e))"
proof (induction ks arbitrary: e ls)
  case Nil
  then show ?case by simp
next
  case (Cons k ks)
  from Cons.prems(1) show ?case
  proof (cases rule: for_loop_Cons_cases)
    case (raised err)
    with Cons.prems(2) show ?thesis by simp
  next
    case (break e1 p)
    with Cons.prems(2) show ?thesis by simp
  next
    case (continue e1 p ls1)
    with Cons.prems(2) have "l = (k, p) \<or> l \<in> set (butlast ls1)"
      by (auto split: if_splits)
    then show ?thesis
    proof
      assume "l = (k, p)"
      with continue(2) show ?thesis by simp
    next
      assume "l \<in> set (butlast ls1)"
      with Cons.IH [of e1 ls1] continue show ?thesis by simp
    qed
  qed
qed

lemma for_loop_below_last:
  assumes "for_loop X ks e = (ls, r)" and "l \<in> set ls" and "py_lt (snd l) (Float (alpha2 e))"
  shows "py_lt (snd (last ls)) (Float (alpha2 e))"
proof -
  from assms(2) have "ls \<noteq> []" by auto
  then have "ls = butlast ls @ [last ls]" by simp
  then have "set ls = set (butlast ls) \<union> {last ls}"
    by (metis list.set(1) list.simps(15) set_append Un_insert_right sup_bot.right_neutral)
  with assms(2) have "l \<in> set (butlast ls) \<or> l = last ls" by auto
  then show ?thesis
  proof
    assume "l \<in> set (butlast ls)"
    from for_loop_butlast [OF assms(1) this] assms(3) show ?thesis by simp
  next
    assume "l = last ls"
    with assms(3) show ?thesis by simp
  qed
qed

lemma for_loop_last:
  "for_loop X ks e = (ls, Inr e') \<Longrightarrow> ls \<noteq> [] \<Longrightarrow>
     n e' = Some (fst (last ls)) \<and> pval e' = Some (snd (last ls))"
proof (induction ks arbitrary: e ls)
  case Nil
  then show ?case by simp
next
  case (Cons k ks)
  from Cons.prems(1) show ?case
  proof (cases rule: for_loop_Cons_cases)
    case (raised err)
    then show ?thesis by simp
  next
    case (break e1 p)
    with body_Inr [of X k e e1 p] show ?thesis by auto
  next
    case (continue e1 p ls1)
    show ?thesis
    proof (cases "ls1 = []")
      case True
      with continue(3) have "ks = [] \<or> (\<exists>k' ks'. ks = k' # ks')" by (cases ks) auto
      then show ?thesis
      proof
        assume "ks = []"
        with continue True body_Inr [of X k e e1 p] show ?thesis by auto
      next
        assume "\<exists>k' ks'. ks = k' # ks'"
        then obtain k' ks' where ks: "ks = k' # ks'" by blast
        from continue(3) [unfolded ks] True show ?thesis
          by (cases rule: for_loop_Cons_cases) (use continue(3) in simp_all)
      qed
    next
      case False
      with Cons.IH [of e1 ls1] continue show ?thesis by simp
    qed
  qed
qed

lemma for_loop_early:
  "for_loop X ks e = (ls, Inr e') \<Longrightarrow> length ls < length ks \<Longrightarrow>
     ls \<noteq> [] \<and> py_lt (snd (last ls)) (Float (alpha2 e))"
proof (induction ks arbitrary: e ls)
  case Nil
  then show ?case by simp
next
  case (Cons k ks)
  from Cons.prems(1) show ?case
  proof (cases rule: for_loop_Cons_cases)
    case (raised err)
    then show ?thesis by simp
  next
    case (break e1 p)
    then show ?thesis by simp
  next
    case (continue e1 p ls1)
    with Cons.prems(2) have "length ls1 < length ks" by simp
    with Cons.IH [of e1 ls1] continue show ?thesis by simp
  qed
qed

lemma not_below_zero:
  "a \<le> 0 \<Longrightarrow> \<not> py_lt q (Float 0) \<Longrightarrow> \<not> py_lt q (Float a)"
  by (cases q) auto

lemma for_loop_exhaust:
  assumes "for_loop X ks e = (ls, Inr e')"
    and "list_all (\<lambda>l. \<not> py_lt (snd l) (Float (alpha2 e))) ls"
  shows "map fst ls = ks"
proof -
  have "\<not> length ls < length ks"
  proof
    assume "length ls < length ks"
    from for_loop_early [OF assms(1) this]
    have "ls \<noteq> []" and "py_lt (snd (last ls)) (Float (alpha2 e))" by simp_all
    moreover from \<open>ls \<noteq> []\<close> have "last ls \<in> set ls" by simp
    ultimately show False using assms(2) by (auto simp: list_all_iff)
  qed
  with for_loop_length [OF assms(1)] have "length ls = length ks" by simp
  with for_loop_prefix [OF assms(1)] show ?thesis by simp
qed

lemma for_loop_never_below:
  assumes "\<And>s N m. \<not> py_lt (trihypergeometric_optim X s N m) (Float (alpha2 e))"
  shows "list_all (\<lambda>l. \<not> py_lt (snd l) (Float (alpha2 e))) (fst (for_loop X ks e))"
  using assms
proof (induction ks arbitrary: e)
  case Nil
  then show ?case by simp
next
  case (Cons k ks)
  obtain ls r where l: "for_loop X (k # ks) e = (ls, r)" by (cases "for_loop X (k # ks) e")
  from l show ?case
  proof (cases rule: for_loop_Cons_cases)
    case (raised err)
    with l show ?thesis by simp
  next
    case (break e1 p)
    with body_Inr [of X k e e1 p] Cons.prems show ?thesis by auto
  next
    case (continue e1 p ls1)
    with Cons.IH [of e1] Cons.prems have "list_all (\<lambda>l. \<not> py_lt (snd l) (Float (alpha2 e))) ls1"
      by simp
    with continue l show ?thesis by simp
  qed
qed

lemma for_loop_empty_pop:
  "pop e = [] \<Longrightarrow> for_loop X (k # ks) e = ([], Inl ValueError)"
  by (simp add: body_def choice_def)

lemma for_loop_no_error:
  assumes "pop e \<noteq> []" and "\<And>g. fst (np_randint X g (length (pop e))) < length (pop e)"
  shows "\<exists>e'. snd (for_loop X ks e) = Inr e'"
  using assms
proof (induction ks arbitrary: e)
  case Nil
  then show ?case by simp
next
  case (Cons k ks)
  obtain s g' where ch: "choice (np_randint X) (rng e) (pop e) k = Inr (s, g')"
    using choice_ok [of "pop e" "np_randint X" "rng e" k] Cons.prems by blast
  then have "\<exists>e1 p. body X k e = Inr (e1, p)"
    by (simp add: body_def Let_def)
  then obtain e1 p where b: "body X k e = Inr (e1, p)" by blast
  obtain ls r where l: "for_loop X (k # ks) e = (ls, r)" by (cases "for_loop X (k # ks) e")
  from l show ?case
  proof (cases rule: for_loop_Cons_cases)
    case (raised err)
    with b show ?thesis by simp
  next
    case (break e2 p2)
    with l show ?thesis by simp
  next
    case (continue e2 p2 ls1)
    with Cons.IH [of e2] Cons.prems have "\<exists>e'. snd (for_loop X ks e2) = Inr e'" by simp
    with continue l show ?thesis by simp
  qed
qed

lemma for_loop_overwrites:
  "for_loop X (k # ks) (e\<lparr>n := a, sample := b, pval := d\<rparr>) = for_loop X (k # ks) e"
  by (simp add: body_overwrites)


lemma for_loop_passes:
  "for_loop X ks e = (ls, Inr e') \<Longrightarrow> passes X e ls e'"
proof (induction ks arbitrary: e ls)
  case Nil
  then show ?case by simp
next
  case (Cons k ks)
  from Cons.prems show ?case
  proof (cases rule: for_loop_Cons_cases)
    case (raised err)
    then show ?thesis by simp
  next
    case (break e1 p)
    then show ?thesis by simp
  next
    case (continue e1 p ls1)
    with Cons.IH [of e1 ls1] show ?thesis by simp
  qed
qed

lemma passes_oracle:
  "passes X e ls e' \<Longrightarrow>
     list_all (\<lambda>l. \<exists>s. length s = fst l \<and> set s \<subseteq> set (pop e)
                 \<and> snd l = trihypergeometric_optim X s (N2 e) (c e)) ls"
proof (induction ls arbitrary: e)
  case Nil
  then show ?case by simp
next
  case (Cons l ls)
  obtain k p where l: "l = (k, p)" by (cases l)
  from Cons.prems l obtain e1 where b: "body X k e = Inr (e1, p)" and r: "passes X e1 ls e'"
    by (auto split: sum.splits)
  from body_Inr [OF b] obtain s g'
    where ch: "choice (np_randint X) (rng e) (pop e) k = Inr (s, g')"
      and p: "p = trihypergeometric_optim X s (N2 e) (c e)"
    by blast
  from choice_Inr [OF ch] have s: "length s = k" "set s \<subseteq> set (pop e)" by simp_all
  from body_fixed [OF b] have f: "pop e1 = pop e" "N2 e1 = N2 e" "c e1 = c e" by simp_all
  from Cons.IH [OF r] f
  have "list_all (\<lambda>l. \<exists>s. length s = fst l \<and> set s \<subseteq> set (pop e)
                 \<and> snd l = trihypergeometric_optim X s (N2 e) (c e)) ls"
    by simp
  moreover from s p l
  have "\<exists>s. length s = fst l \<and> set s \<subseteq> set (pop e)
           \<and> snd l = trihypergeometric_optim X s (N2 e) (c e)"
    by auto
  ultimately show ?case by simp
qed

lemma for_loop_nonempty:
  assumes "for_loop X (k # ks) e = (ls, Inr e')"
  shows "ls \<noteq> []"
  using assms by (cases rule: for_loop_Cons_cases) simp_all

section \<open>The search cell\<close>

text \<open>The search cell runs the loop over \<^verbatim>\<open>range(20, 10000, 20)\<close> from the state its first
  three statements set up (\<open>cell7_run\<close>), so what is proved of \<open>for_loop\<close> for every list of
  candidates and every state holds of the cell.\<close>

lemma cell7_init_pop:
  "pop (cell7_init X e) = replicate 52500 (Float 0) @ replicate 42500 (Float 1) @ replicate 5000 NaN"
  by (simp add: cell7_init_def Let_def)

lemma cell7_init_alpha2: "alpha2 (cell7_init X e) = alpha2 e"
  by (simp add: cell7_init_def Let_def)

lemma cell7_init_overwrites:
  "cell7_init X (e\<lparr>rng := g, pop := q, c := r, n := a, sample := b, pval := d\<rparr>)
     = (cell7_init X e)\<lparr>n := a, sample := b, pval := d\<rparr>"
  by (simp add: cell7_init_def Let_def)

lemma cell7_run:
  "for_loop X (py_range 20 10000 20) (cell7_init X e) = (printed (cell7 X e), outcome (cell7 X e))"
  by (simp add: cell7_def Let_def split: prod.split)

lemma cell7_exhaust:
  assumes "\<not> isl (outcome (cell7 X e))"
    and "list_all (\<lambda>l. \<not> py_lt (snd l) (Float (alpha2 e))) (printed (cell7 X e))"
  shows "map fst (printed (cell7 X e)) = map (\<lambda>i. 20 + i * 20) [0..<499]"
proof -
  from assms(1) obtain e' where o: "outcome (cell7 X e) = Inr e'"
    by (cases "outcome (cell7 X e)") simp_all
  from assms(2)
  have nb: "list_all (\<lambda>l. \<not> py_lt (snd l) (Float (alpha2 (cell7_init X e)))) (printed (cell7 X e))"
    by (simp only: cell7_init_alpha2)
  from cell7_run [of X e] o
  have "for_loop X (py_range 20 10000 20) (cell7_init X e) = (printed (cell7 X e), Inr e')"
    by simp
  from for_loop_exhaust [OF this nb] show ?thesis by (simp only: candidates)
qed

lemma cell7_length: "length (printed (cell7 X e)) \<le> 499"
  using for_loop_length [OF cell7_run [of X e]] by (simp add: candidates)


lemma cell7_init_N2: "N2 (cell7_init X e) = N2 e"
  by (simp add: cell7_init_def Let_def)

lemma cell7_no_error:
  assumes "\<And>g. fst (np_randint X g 100000) < 100000"
  shows "\<exists>e'. outcome (cell7 X e) = Inr e'"
proof -
  let ?e = "cell7_init X e"
  have l: "length (pop ?e) = 100000" by (simp add: cell7_init_pop)
  then have "pop ?e \<noteq> []" by auto
  moreover from assms l have "\<And>g. fst (np_randint X g (length (pop ?e))) < length (pop ?e)"
    by simp
  ultimately obtain e' where "snd (for_loop X (py_range 20 10000 20) ?e) = Inr e'"
    using for_loop_no_error [of ?e X "py_range 20 10000 20"] by blast
  then show ?thesis by (simp add: cell7_run)
qed

section \<open>Runs on concrete inputs\<close>

lemma draw_indices_numeral:
  "draw_indices ri h (numeral w) g =
     (let (i, g1) = ri g h; (js, g2) = draw_indices ri h (pred_numeral w) g1 in (i # js, g2))"
  by (simp add: numeral_eq_Suc)

lemmas run_eval = body_def choice_def Let_def draw_indices_numeral


text \<open>On the small population with risk limit 3/8 the p-values are 1/2 and 1/4: the loop
  stops at the second of three candidates.\<close>

lemma tiny_run:
  "for_loop stub [2, 4, 6] tiny =
     ([(2, Float (1 / 2)), (4, Float (1 / 4))],
      Inr (tiny\<lparr>n := Some 4, sample := Some [NaN, Float 0, Float 1, NaN], pval := Some (Float (1 / 4)), rng := 6\<rparr>))"
  by (simp add: run_eval stub_def tiny_def fresh_def)


text \<open>With an oracle that always answers 1 the loop runs through every candidate.\<close>

lemma tiny_never:
  "for_loop never [2, 4] tiny =
     ([(2, Float 1), (4, Float 1)],
      Inr (tiny\<lparr>n := Some 4, sample := Some [Float 0, Float 0, Float 0, Float 0], pval := Some (Float 1), rng := 6\<rparr>))"
  by (simp add: run_eval never_def tiny_def fresh_def)

lemma tiny_alpha0:
  "for_loop stub [2, 4] (tiny\<lparr>alpha2 := 0\<rparr>) =
     ([(2, Float (1 / 2)), (4, Float (1 / 4))],
      Inr (tiny\<lparr>alpha2 := 0, n := Some 4, sample := Some [NaN, Float 0, Float 1, NaN],
                pval := Some (Float (1 / 4)), rng := 6\<rparr>))"
  by (simp add: run_eval stub_def tiny_def fresh_def)

lemma tiny_alpha1:
  "for_loop stub [2, 4] (tiny\<lparr>alpha2 := 1\<rparr>) =
     ([(2, Float (1 / 2))],
      Inr (tiny\<lparr>alpha2 := 1, n := Some 2, sample := Some [Float 0, Float 1],
                pval := Some (Float (1 / 2)), rng := 2\<rparr>))"
  by (simp add: run_eval stub_def tiny_def fresh_def)

lemma tiny_alpha2_body:
  "body stub 2 (tiny\<lparr>alpha2 := 2\<rparr>) =
     Inr (tiny\<lparr>alpha2 := 2, n := Some 2, sample := Some [Float 0, Float 1],
               pval := Some (Float (1 / 2)), rng := 2\<rparr>, Float (1 / 2))"
  by (simp add: run_eval stub_def tiny_def fresh_def)


text \<open>The notebook's own cells with \<open>stub\<close>: 1/20 is not below \<open>alpha2\<close>, 1/40 is, and
  the search stops at the second candidate.\<close>

lemma stub_gen: "fst (np_randint stub g 100000) < 100000"
  by (simp add: stub_def)

lemma never_gen: "fst (np_randint never g 100000) < 100000"
  by (simp add: never_def)

lemma stub_printed:
  "printed (cell7 stub (cell2 fresh)) = [(20, Float (1 / 20)), (40, Float (1 / 40))]"
  by (simp add: cell7_def cell7_init_def cell2_def candidates_two run_eval stub_def fresh_def
        fl_eval fsub_def fmul_def float_of_int_def nth_append)

text \<open>The notebook's own cells with the oracle that always answers 1: no exception, and
  no p-value below \<open>alpha2\<close>.\<close>

lemma never_no_error: "\<not> isl (outcome (cell7 never (cell2 fresh)))"
proof -
  let ?e = "cell7_init never (cell2 fresh)"
  have "pop ?e \<noteq> []" by (simp add: cell7_init_pop)
  moreover have "\<And>g. fst (np_randint never g (length (pop ?e))) < length (pop ?e)"
    by (simp add: never_def cell7_init_pop)
  ultimately obtain e' where "snd (for_loop never (py_range 20 10000 20) ?e) = Inr e'"
    using for_loop_no_error [of ?e never "py_range 20 10000 20"] by blast
  then show ?thesis by (simp add: cell7_run)
qed

lemma never_not_below:
  "list_all (\<lambda>l. \<not> py_lt (snd l) (Float (alpha2 (cell2 fresh)))) (printed (cell7 never (cell2 fresh)))"
proof -
  let ?e = "cell7_init never (cell2 fresh)"
  have "\<And>s N m. \<not> py_lt (trihypergeometric_optim never s N m) (Float (alpha2 ?e))"
    by (simp add: never_def cell7_init_alpha2 cell2_alpha2)
  from for_loop_never_below [of never ?e "py_range 20 10000 20", OF this]
  show ?thesis by (simp add: cell7_run cell7_init_alpha2)
qed

section \<open>C1: the candidates that are evaluated\<close>

text \<open>
  C1 says that, when no iteration succeeds, the candidates run through 20, 40, ... up to
  and including 10000. The run below contradicts it: with the oracle that always answers 1
  nothing raises, no p-value is below \<open>alpha2\<close>, the last candidate evaluated is 9980 and
  10000 is not among the candidates evaluated.
\<close>

theorem last_candidate_is_9980:
  "\<not> isl (outcome (cell7 never (cell2 fresh)))
   \<and> list_all (\<lambda>l. \<not> py_lt (snd l) (Float (alpha2 (cell2 fresh))))
        (printed (cell7 never (cell2 fresh)))
   \<and> last (map fst (printed (cell7 never (cell2 fresh)))) = 9980
   \<and> 10000 \<notin> set (map fst (printed (cell7 never (cell2 fresh))))"
proof -
  have m: "map fst (printed (cell7 never (cell2 fresh))) = map (\<lambda>i. 20 + i * 20) [0..<499]"
    by (rule cell7_exhaust [OF never_no_error never_not_below])
  have "last (map (\<lambda>i. 20 + i * 20) [0..<499] :: nat list) = 9980"
    by (simp add: last_map)
  moreover have "10000 \<notin> set (map (\<lambda>i. 20 + i * 20) [0..<499] :: nat list)"
    by auto
  ultimately show ?thesis using m never_no_error never_not_below by simp
qed

text \<open>
  C1, amended: the candidates are those of \<^verbatim>\<open>range(20, 10000, 20)\<close>, that is 20, 40, ...,
  9980 (\<open>n < 10000\<close>, 499 of them). Every run evaluates a prefix of this progression and
  never evaluates 10000; a run that raises nothing and in which no p-value is below
  \<open>alpha2\<close> evaluates all of it, ending with 9980.
\<close>

theorem cell7_candidates:
  "10000 \<notin> set (map fst (printed (cell7 X e)))
   \<and> map fst (printed (cell7 X e))
       = take (length (printed (cell7 X e))) (map (\<lambda>i. 20 + i * 20) [0..<499])
   \<and> (\<not> isl (outcome (cell7 X e))
        \<and> list_all (\<lambda>l. \<not> py_lt (snd l) (Float (alpha2 e))) (printed (cell7 X e))
      \<longrightarrow> map fst (printed (cell7 X e)) = map (\<lambda>i. 20 + i * 20) [0..<499]
          \<and> last (map fst (printed (cell7 X e))) = 9980)"
proof -
  let ?ls = "printed (cell7 X e)"
  let ?ks = "map (\<lambda>i. 20 + i * 20) [0..<499] :: nat list"
  have run: "for_loop X ?ks (cell7_init X e) = (?ls, outcome (cell7 X e))"
    using cell7_run [of X e] by (simp only: candidates)
  have pre: "map fst ?ls = take (length ?ls) ?ks"
    by (rule for_loop_prefix [OF run])
  have "10000 \<notin> set ?ks" by auto
  then have "10000 \<notin> set (take (length ?ls) ?ks)"
    by (meson in_set_takeD)
  with pre have no: "10000 \<notin> set (map fst ?ls)" by simp
  have full: "map fst ?ls = ?ks \<and> last (map fst ?ls) = 9980"
    if ok: "\<not> isl (outcome (cell7 X e))"
      and nb: "list_all (\<lambda>l. \<not> py_lt (snd l) (Float (alpha2 e))) ?ls"
  proof -
    from cell7_exhaust [OF ok nb] have m: "map fst ?ls = ?ks" .
    have "last ?ks = 9980" by (simp add: last_map)
    with m show ?thesis by simp
  qed
  from no pre full show ?thesis by blast
qed

theorem cell7_candidates_witness:
  "\<not> isl (outcome (cell7 never (cell2 fresh)))
   \<and> list_all (\<lambda>l. \<not> py_lt (snd l) (Float (alpha2 (cell2 fresh))))
        (printed (cell7 never (cell2 fresh)))
   \<and> map fst (printed (cell7 never (cell2 fresh))) = map (\<lambda>i. 20 + i * 20) [0..<499]
   \<and> last (map fst (printed (cell7 never (cell2 fresh)))) = 9980
   \<and> 10000 \<notin> set (map fst (printed (cell7 never (cell2 fresh))))"
  using cell7_candidates [of never "cell2 fresh"] never_no_error never_not_below
  by blast

section \<open>C2: stopping at the first success\<close>

text \<open>
  C2: for every oracle, every prior state and every generator that keeps its indices below
  the bound, the search cell ends without an exception and has printed at least one line.
  The lines are the candidates 20, 40, ... in order, none skipped; they are consecutive
  passes through the body from the state the cell set up, each p-value being what the
  oracle returned for a sample of that size drawn from \<open>pop\<close>. No line but the last has a
  p-value below \<open>alpha2\<close>; if any p-value is below \<open>alpha2\<close> it is the last line's; and
  the loop stops before the 499th candidate only when the last p-value is below
  \<open>alpha2\<close>. \<open>n\<close> and \<open>pval\<close> hold the last line. So the search ends, normally, at the
  first candidate whose p-value satisfies \<open>pval < alpha2\<close>, with that pair in \<open>n\<close> and
  \<open>pval\<close>, evaluates nothing after it, and goes on to the next candidate otherwise.
\<close>

theorem first_success:
  assumes "\<And>g. fst (np_randint X g 100000) < 100000"
  shows "\<exists>e'. outcome (cell7 X e) = Inr e'
     \<and> printed (cell7 X e) \<noteq> []
     \<and> map fst (printed (cell7 X e))
         = take (length (printed (cell7 X e))) (map (\<lambda>i. 20 + i * 20) [0..<499])
     \<and> passes X (cell7_init X e) (printed (cell7 X e)) e'
     \<and> list_all (\<lambda>l. \<exists>s. length s = fst l \<and> set s \<subseteq> set (pop (cell7_init X e))
                     \<and> snd l = trihypergeometric_optim X s (N2 e) (c (cell7_init X e)))
          (printed (cell7 X e))
     \<and> list_all (\<lambda>l. \<not> py_lt (snd l) (Float (alpha2 e))) (butlast (printed (cell7 X e)))
     \<and> (list_ex (\<lambda>l. py_lt (snd l) (Float (alpha2 e))) (printed (cell7 X e))
          \<longrightarrow> py_lt (snd (last (printed (cell7 X e)))) (Float (alpha2 e)))
     \<and> (length (printed (cell7 X e)) < 499
          \<longrightarrow> py_lt (snd (last (printed (cell7 X e)))) (Float (alpha2 e)))
     \<and> n e' = Some (fst (last (printed (cell7 X e))))
     \<and> pval e' = Some (snd (last (printed (cell7 X e))))"
proof -
  let ?ls = "printed (cell7 X e)"
  let ?e = "cell7_init X e"
  from cell7_no_error [OF assms] obtain e' where o: "outcome (cell7 X e) = Inr e'" by blast
  with cell7_run [of X e] have run: "for_loop X (py_range 20 10000 20) ?e = (?ls, Inr e')"
    by simp
  from run have ne: "?ls \<noteq> []"
    by (simp only: candidates_Cons) (rule for_loop_nonempty)
  have pre: "map fst ?ls = take (length ?ls) (map (\<lambda>i. 20 + i * 20) [0..<499])"
    using for_loop_prefix [OF run] by (simp only: candidates)
  note ps = for_loop_passes [OF run]
  from passes_oracle [OF ps]
  have orc: "list_all (\<lambda>l. \<exists>s. length s = fst l \<and> set s \<subseteq> set (pop ?e)
                     \<and> snd l = trihypergeometric_optim X s (N2 e) (c ?e)) ?ls"
    by (simp only: cell7_init_N2)
  have bl: "list_all (\<lambda>l. \<not> py_lt (snd l) (Float (alpha2 e))) (butlast ?ls)"
    using for_loop_butlast [OF run] by (simp add: list_all_iff cell7_init_alpha2)
  have ex: "list_ex (\<lambda>l. py_lt (snd l) (Float (alpha2 e))) ?ls
          \<longrightarrow> py_lt (snd (last ?ls)) (Float (alpha2 e))"
  proof
    assume "list_ex (\<lambda>l. py_lt (snd l) (Float (alpha2 e))) ?ls"
    then obtain l where "l \<in> set ?ls" "py_lt (snd l) (Float (alpha2 ?e))"
      by (auto simp: list_ex_iff cell7_init_alpha2)
    from for_loop_below_last [OF run this]
    show "py_lt (snd (last ?ls)) (Float (alpha2 e))" by (simp only: cell7_init_alpha2)
  qed
  have len: "length (py_range 20 10000 20) = 499" by (simp add: candidates)
  have early: "length ?ls < 499 \<longrightarrow> py_lt (snd (last ?ls)) (Float (alpha2 e))"
  proof
    assume "length ?ls < 499"
    then have "length ?ls < length (py_range 20 10000 20)" by (simp only: len)
    from for_loop_early [OF run this]
    show "py_lt (snd (last ?ls)) (Float (alpha2 e))" by (simp only: cell7_init_alpha2)
  qed
  note la = for_loop_last [OF run ne]
  from o ne pre ps orc bl ex early la show ?thesis by blast
qed

theorem first_success_witness:
  "(\<forall>g. fst (np_randint stub g 100000) < 100000)
   \<and> printed (cell7 stub (cell2 fresh)) = [(20, Float (1 / 20)), (40, Float (1 / 40))]
   \<and> \<not> py_lt (Float (1 / 20)) (Float (alpha2 (cell2 fresh)))
   \<and> py_lt (Float (1 / 40)) (Float (alpha2 (cell2 fresh)))
   \<and> (\<exists>e'. outcome (cell7 stub (cell2 fresh)) = Inr e'
          \<and> n e' = Some 40 \<and> pval e' = Some (Float (1 / 40)))"
proof -
  have a: "\<not> py_lt (Float (1 / 20)) (Float (alpha2 (cell2 fresh)))"
    by (simp add: cell2_alpha2)
  have b: "py_lt (Float (1 / 40)) (Float (alpha2 (cell2 fresh)))"
    by (simp add: cell2_alpha2)
  from first_success [of stub "cell2 fresh", OF stub_gen]
  obtain e' where "outcome (cell7 stub (cell2 fresh)) = Inr e'"
    and "n e' = Some (fst (last (printed (cell7 stub (cell2 fresh)))))"
    and "pval e' = Some (snd (last (printed (cell7 stub (cell2 fresh)))))"
    by blast
  then have "\<exists>e'. outcome (cell7 stub (cell2 fresh)) = Inr e'
          \<and> n e' = Some 40 \<and> pval e' = Some (Float (1 / 40))"
    by (simp add: stub_printed)
  with a b stub_gen stub_printed show ?thesis by blast
qed

section \<open>C3: the sample of an iteration\<close>

text \<open>
  C3 is about the distribution of the draws (independent, uniform), which is a property
  of numpy's generator and is not expressed here. What the cell itself fixes is proved in
  \<open>body_sample\<close> and \<open>cell7_init_rng\<close>: each iteration draws exactly \<open>n\<close> elements of
  \<open>pop\<close>, starting from the generator state the previous iteration left, and the first
  iteration starts from the state \<open>seed(292018)\<close>.
\<close>

lemma cell7_init_rng: "rng (cell7_init X e) = np_seed X 292018"
  by (simp add: cell7_init_def Let_def)

section \<open>C4: sample sizes beyond the population\<close>

text \<open>
  C4 says that a sample size above the population size is refused. It is not: on a
  population of three ballots the body draws a sample of five, with repetitions, and calls
  the oracle on it.
\<close>

theorem oversized_sample_drawn:
  "length (pop tiny) < 5
   \<and> body stub 5 tiny =
       Inr (tiny\<lparr>n := Some 5, sample := Some [Float 0, Float 1, NaN, Float 0, Float 1],
                 pval := Some (Float (1 / 5)), rng := 5\<rparr>, Float (1 / 5))"
  by (simp add: run_eval stub_def tiny_def fresh_def)

text \<open>
  C4, amended: the search never refuses a sample size. \<^verbatim>\<open>np.random.choice\<close> draws with
  replacement, so for a non-empty population (and a generator that keeps its indices below
  the bound) the body draws a sample of exactly \<open>k\<close> elements of \<open>pop\<close> for every \<open>k\<close>,
  below, equal to or above the population size, and hands it to the oracle. (In the
  notebook itself every candidate is at most 9980, below the population size 100000.)
\<close>

theorem sample_size_unchecked:
  assumes "pop e \<noteq> []"
    and "\<And>g. fst (np_randint X g (length (pop e))) < length (pop e)"
  shows "\<exists>e' p s. body X k e = Inr (e', p) \<and> sample e' = Some s \<and> length s = k
           \<and> set s \<subseteq> set (pop e) \<and> p = trihypergeometric_optim X s (N2 e) (c e)"
proof -
  obtain s g' where ch: "choice (np_randint X) (rng e) (pop e) k = Inr (s, g')"
    using choice_ok [of "pop e" "np_randint X" "rng e" k] assms by blast
  from choice_Inr [OF ch] have "length s = k" "set s \<subseteq> set (pop e)" by simp_all
  with ch show ?thesis by (simp add: body_def Let_def)
qed

theorem sample_size_unchecked_witness:
  "pop tiny \<noteq> []
   \<and> (\<forall>g. fst (np_randint stub g (length (pop tiny))) < length (pop tiny))
   \<and> length (pop tiny) < 5
   \<and> (\<exists>e' p s. body stub 5 tiny = Inr (e', p) \<and> sample e' = Some s \<and> length s = 5)
   \<and> (\<exists>e' p s. body stub 3 tiny = Inr (e', p) \<and> sample e' = Some s \<and> length s = 3)"
proof -
  have a: "pop tiny \<noteq> []" by (simp add: tiny_def fresh_def)
  have b: "\<And>g. fst (np_randint stub g (length (pop tiny))) < length (pop tiny)"
    by (simp add: tiny_def fresh_def stub_def)
  have d: "length (pop tiny) < 5" by (simp add: tiny_def fresh_def)
  from sample_size_unchecked [of tiny stub 5, OF a b] sample_size_unchecked [of tiny stub 3, OF a b]
    a b d show ?thesis by blast
qed

section \<open>C5: degenerate inputs\<close>

text \<open>
  C5 says that a risk limit outside (0, 1) is refused before any sampling. It is not: with
  \<open>alpha2 = 0\<close> the loop samples, calls the oracle and runs through both candidates; with
  \<open>alpha2 = 1\<close> it stops at the first candidate as a success.
\<close>

theorem degenerate_alpha_accepted:
  "alpha2 (tiny\<lparr>alpha2 := 0\<rparr>) \<le> 0
   \<and> for_loop stub [2, 4] (tiny\<lparr>alpha2 := 0\<rparr>) =
     ([(2, Float (1 / 2)), (4, Float (1 / 4))],
      Inr (tiny\<lparr>alpha2 := 0, n := Some 4, sample := Some [NaN, Float 0, Float 1, NaN],
                pval := Some (Float (1 / 4)), rng := 6\<rparr>))
   \<and> 1 \<le> alpha2 (tiny\<lparr>alpha2 := 1\<rparr>)
   \<and> for_loop stub [2, 4] (tiny\<lparr>alpha2 := 1\<rparr>) =
     ([(2, Float (1 / 2))],
      Inr (tiny\<lparr>alpha2 := 1, n := Some 2, sample := Some [Float 0, Float 1],
                pval := Some (Float (1 / 2)), rng := 2\<rparr>))"
  using tiny_alpha0 tiny_alpha1 by simp

text \<open>
  C5, amended: the only degenerate input that fails is the empty population: the first
  call of \<^verbatim>\<open>np.random.choice\<close> raises \<open>ValueError\<close>, before any oracle call and before
  any \<open>n= , pvalue=\<close> line is printed. The risk limit is never checked: with a non-empty
  population (and a generator that keeps its indices below the bound) the loop raises
  nothing, whatever \<open>alpha2\<close> is; with \<open>alpha2 \<le> 0\<close> and p-values not below 0 every
  candidate is evaluated, and with \<open>alpha2 > 1\<close> and a first p-value of at most 1 the loop
  stops at the first candidate.
\<close>

theorem degenerate_inputs:
  "(pop e = [] \<longrightarrow> for_loop X (k # ks) e = ([], Inl ValueError))
   \<and> (pop e \<noteq> [] \<and> (\<forall>g. fst (np_randint X g (length (pop e))) < length (pop e))
        \<longrightarrow> \<not> isl (snd (for_loop X ks e)))
   \<and> (alpha2 e \<le> 0 \<and> for_loop X ks e = (ls, Inr e')
        \<and> list_all (\<lambda>l. \<not> py_lt (snd l) (Float 0)) ls \<longrightarrow> map fst ls = ks)
   \<and> (1 < alpha2 e \<and> body X k e = Inr (e1, Float x) \<and> x \<le> 1
        \<longrightarrow> for_loop X (k # ks) e = ([(k, Float x)], Inr e1))"
proof -
  have a: "pop e = [] \<longrightarrow> for_loop X (k # ks) e = ([], Inl ValueError)"
    using for_loop_empty_pop [of e X k ks] by blast
  have b: "pop e \<noteq> [] \<and> (\<forall>g. fst (np_randint X g (length (pop e))) < length (pop e))
        \<longrightarrow> \<not> isl (snd (for_loop X ks e))"
  proof
    assume h: "pop e \<noteq> [] \<and> (\<forall>g. fst (np_randint X g (length (pop e))) < length (pop e))"
    then obtain e2 where "snd (for_loop X ks e) = Inr e2"
      using for_loop_no_error [of e X ks] by blast
    then show "\<not> isl (snd (for_loop X ks e))" by simp
  qed
  have c0: "alpha2 e \<le> 0 \<and> for_loop X ks e = (ls, Inr e')
        \<and> list_all (\<lambda>l. \<not> py_lt (snd l) (Float 0)) ls \<longrightarrow> map fst ls = ks"
  proof
    assume h: "alpha2 e \<le> 0 \<and> for_loop X ks e = (ls, Inr e')
        \<and> list_all (\<lambda>l. \<not> py_lt (snd l) (Float 0)) ls"
    then have "list_all (\<lambda>l. \<not> py_lt (snd l) (Float (alpha2 e))) ls"
      using not_below_zero [of "alpha2 e"] by (auto simp: list_all_iff)
    with h for_loop_exhaust [of X ks e ls e'] show "map fst ls = ks" by blast
  qed
  have d: "1 < alpha2 e \<and> body X k e = Inr (e1, Float x) \<and> x \<le> 1
        \<longrightarrow> for_loop X (k # ks) e = ([(k, Float x)], Inr e1)"
  proof
    assume h: "1 < alpha2 e \<and> body X k e = Inr (e1, Float x) \<and> x \<le> 1"
    then have "alpha2 e1 = alpha2 e" using body_fixed [of X k e e1 "Float x"] by simp
    with h show "for_loop X (k # ks) e = ([(k, Float x)], Inr e1)" by simp
  qed
  from a b c0 d show ?thesis by blast
qed

theorem degenerate_inputs_witness:
  "pop fresh = []
   \<and> for_loop stub [2, 4] fresh = ([], Inl ValueError)
   \<and> pop tiny \<noteq> []
   \<and> (\<forall>g. fst (np_randint stub g (length (pop tiny))) < length (pop tiny))
   \<and> \<not> isl (snd (for_loop stub [2, 4, 6] tiny))
   \<and> alpha2 (tiny\<lparr>alpha2 := 0\<rparr>) \<le> 0
   \<and> list_all (\<lambda>l. \<not> py_lt (snd l) (Float 0)) [(2 :: nat, Float (1 / 2)), (4, Float (1 / 4))]
   \<and> fst (for_loop stub [2, 4] (tiny\<lparr>alpha2 := 0\<rparr>)) = [(2, Float (1 / 2)), (4, Float (1 / 4))]
   \<and> 1 < alpha2 (tiny\<lparr>alpha2 := 2\<rparr>)
   \<and> fst (for_loop stub [2, 4] (tiny\<lparr>alpha2 := 2\<rparr>)) = [(2, Float (1 / 2))]"
proof -
  have a: "pop fresh = []" by (simp add: fresh_def)
  have b1: "pop tiny \<noteq> []" by (simp add: tiny_def fresh_def)
  have b2: "\<And>g. fst (np_randint stub g (length (pop tiny))) < length (pop tiny)"
    by (simp add: tiny_def fresh_def stub_def)
  from b1 b2
  have b: "pop tiny \<noteq> [] \<and> (\<forall>g. fst (np_randint stub g (length (pop tiny))) < length (pop tiny))"
    by blast
  have c0: "alpha2 (tiny\<lparr>alpha2 := 0\<rparr>) \<le> 0
     \<and> list_all (\<lambda>l. \<not> py_lt (snd l) (Float 0)) [(2 :: nat, Float (1 / 2)), (4, Float (1 / 4))]"
    by simp
  have d: "1 < alpha2 (tiny\<lparr>alpha2 := 2\<rparr>) \<and> (1 / 2 :: real) \<le> 1" by simp
  note t = degenerate_inputs
  from t [of fresh stub 2 "[4]"] a
  have 1: "for_loop stub [2, 4] fresh = ([], Inl ValueError)" by blast
  from t [of tiny stub _ "[2, 4, 6]"] b
  have 2: "\<not> isl (snd (for_loop stub [2, 4, 6] tiny))" by blast
  from t [of "tiny\<lparr>alpha2 := 0\<rparr>" stub _ "[2, 4]"] c0 tiny_alpha0
  have 3: "fst (for_loop stub [2, 4] (tiny\<lparr>alpha2 := 0\<rparr>)) = [(2, Float (1 / 2)), (4, Float (1 / 4))]"
    by simp
  from t [of "tiny\<lparr>alpha2 := 2\<rparr>" stub 2 "[4]"] d tiny_alpha2_body
  have 4: "fst (for_loop stub [2, 4] (tiny\<lparr>alpha2 := 2\<rparr>)) = [(2, Float (1 / 2))]"
    by simp
  from a b c0 d 1 2 3 4 show ?thesis by blast
qed

section \<open>C6: running out of candidates\<close>

text \<open>
  C6: for every oracle, every prior state and every generator that keeps its indices below
  the bound, the search cell ends without an exception (the outcome is \<open>Inr\<close>, where an
  exception is \<open>Inl\<close>), in one of two ways that the final state tells apart. If no
  evaluated p-value is below \<open>alpha2\<close>, which is so whenever the oracle never returns a
  value below \<open>alpha2\<close>, then all 499 candidates have been evaluated, \<open>n\<close> is the last
  candidate 9980 and the final \<open>pval\<close> is not below \<open>alpha2\<close>: the search is exhausted.
  Otherwise the final \<open>pval\<close> is below \<open>alpha2\<close>: a success.
\<close>

theorem exhausted_outcome:
  assumes "\<And>g. fst (np_randint X g 100000) < 100000"
  shows "\<exists>e' p. outcome (cell7 X e) = Inr e' \<and> pval e' = Some p \<and> alpha2 e' = alpha2 e
     \<and> p = snd (last (printed (cell7 X e)))
     \<and> (list_all (\<lambda>l. \<not> py_lt (snd l) (Float (alpha2 e))) (printed (cell7 X e)) \<longrightarrow>
          \<not> py_lt p (Float (alpha2 e'))
          \<and> map fst (printed (cell7 X e)) = map (\<lambda>i. 20 + i * 20) [0..<499]
          \<and> n e' = Some 9980)
     \<and> (\<not> list_all (\<lambda>l. \<not> py_lt (snd l) (Float (alpha2 e))) (printed (cell7 X e)) \<longrightarrow>
          py_lt p (Float (alpha2 e')))
     \<and> ((\<forall>s. \<not> py_lt (trihypergeometric_optim X s (N2 e) (c (cell7_init X e)))
                   (Float (alpha2 e)))
          \<longrightarrow> list_all (\<lambda>l. \<not> py_lt (snd l) (Float (alpha2 e))) (printed (cell7 X e)))"
proof -
  let ?ls = "printed (cell7 X e)"
  let ?e = "cell7_init X e"
  let ?nb = "list_all (\<lambda>l. \<not> py_lt (snd l) (Float (alpha2 e))) ?ls"
  from cell7_no_error [OF assms] obtain e' where o: "outcome (cell7 X e) = Inr e'" by blast
  with cell7_run [of X e] have run: "for_loop X (py_range 20 10000 20) ?e = (?ls, Inr e')"
    by simp
  from run have ne: "?ls \<noteq> []"
    by (simp only: candidates_Cons) (rule for_loop_nonempty)
  from for_loop_fixed [OF run] have al: "alpha2 e' = alpha2 e"
    by (simp add: cell7_init_alpha2)
  from for_loop_last [OF run ne]
  have la: "n e' = Some (fst (last ?ls))" "pval e' = Some (snd (last ?ls))" by simp_all
  have 1: "\<not> py_lt (snd (last ?ls)) (Float (alpha2 e'))
          \<and> map fst ?ls = map (\<lambda>i. 20 + i * 20) [0..<499] \<and> n e' = Some 9980"
    if nb: ?nb
  proof -
    from o have "\<not> isl (outcome (cell7 X e))" by simp
    from cell7_exhaust [OF this nb] have m: "map fst ?ls = map (\<lambda>i. 20 + i * 20) [0..<499]" .
    from ne have "fst (last ?ls) = last (map fst ?ls)" by (simp add: last_map)
    also have "\<dots> = 9980" by (simp only: m) (simp add: last_map)
    finally have "fst (last ?ls) = 9980" .
    moreover from ne nb have "\<not> py_lt (snd (last ?ls)) (Float (alpha2 e))"
      by (simp add: list_all_iff)
    ultimately show ?thesis using m la al by simp
  qed
  have 2: "py_lt (snd (last ?ls)) (Float (alpha2 e'))" if b: "\<not> ?nb"
  proof -
    from b obtain l where "l \<in> set ?ls" "py_lt (snd l) (Float (alpha2 ?e))"
      by (auto simp: list_all_iff cell7_init_alpha2)
    from for_loop_below_last [OF run this] al show ?thesis
      by (simp add: cell7_init_alpha2)
  qed
  have 3: ?nb
    if h: "\<forall>s. \<not> py_lt (trihypergeometric_optim X s (N2 e) (c ?e)) (Float (alpha2 e))"
  proof -
    from passes_oracle [OF for_loop_passes [OF run]]
    have "list_all (\<lambda>l. \<exists>s. length s = fst l \<and> set s \<subseteq> set (pop ?e)
                     \<and> snd l = trihypergeometric_optim X s (N2 e) (c ?e)) ?ls"
      by (simp only: cell7_init_N2)
    with h show ?thesis by (auto simp: list_all_iff)
  qed
  from o la(2) al 1 2 3 show ?thesis by blast
qed

theorem exhausted_outcome_witness:
  "(\<forall>g. fst (np_randint never g 100000) < 100000)
   \<and> (\<forall>s. \<not> py_lt (trihypergeometric_optim never s (N2 (cell2 fresh))
                     (c (cell7_init never (cell2 fresh)))) (Float (alpha2 (cell2 fresh))))
   \<and> list_all (\<lambda>l. \<not> py_lt (snd l) (Float (alpha2 (cell2 fresh))))
        (printed (cell7 never (cell2 fresh)))
   \<and> length (printed (cell7 never (cell2 fresh))) = 499
   \<and> (\<exists>e' p. outcome (cell7 never (cell2 fresh)) = Inr e' \<and> n e' = Some 9980
          \<and> pval e' = Some p \<and> \<not> py_lt p (Float (alpha2 e')))"
proof -
  let ?ls = "printed (cell7 never (cell2 fresh))"
  have h: "\<forall>s. \<not> py_lt (trihypergeometric_optim never s (N2 (cell2 fresh))
                     (c (cell7_init never (cell2 fresh)))) (Float (alpha2 (cell2 fresh)))"
    by (simp add: never_def cell2_alpha2)
  from exhausted_outcome [of never "cell2 fresh", OF never_gen] h
  obtain e' p where o: "outcome (cell7 never (cell2 fresh)) = Inr e'"
    and p: "pval e' = Some p" "\<not> py_lt p (Float (alpha2 e'))"
    and nb: "list_all (\<lambda>l. \<not> py_lt (snd l) (Float (alpha2 (cell2 fresh)))) ?ls"
    and m: "map fst ?ls = map (\<lambda>i. 20 + i * 20) [0..<499]"
    and n9: "n e' = Some 9980"
    by blast
  have "length (map fst ?ls) = 499" by (simp only: m) simp
  then have len: "length ?ls = 499" by simp
  from never_gen h nb len o p n9 show ?thesis by blast
qed

section \<open>C7: the null margin\<close>

lemma cell7_init_c:
  "c (cell7_init X e) =
     fsub (float_of_int (42500 - 52500)) (fmul (lambda2 e) (float_of_int (margin e)))"
  by (simp add: cell7_init_def Let_def)

lemma cell7_printed_c: "printed_c (cell7 X e) = c (cell7_init X e)"
  by (simp add: cell7_def Let_def split: prod.split)

lemma cell7_init_c_value: "c (cell7_init X (cell2 e)) = - 48900 + 1 / 2 ^ 37"
  by (simp only: cell7_init_c cell2_lambda2 cell2_margin product_value difference_value)

text \<open>
  C7 says that \<open>c\<close> is exactly -48900. It is not: on a fresh kernel, after the parameter
  cell, the search cell prints a \<open>c\<close> different from -48900.
\<close>

theorem null_margin_not_exact: "printed_c (cell7 stub (cell2 fresh)) \<noteq> - 48900"
  by (simp only: cell7_printed_c cell7_init_c_value) simp

text \<open>
  C7, amended: \<^verbatim>\<open>c = (42500-52500) - lambda2*margin\<close> is evaluated in binary64 with
  \<open>lambda2 = 1 - 0.9\<close>, which is not the literal \<open>0.1\<close> but two units in the last place
  (\<open>2 * 2^-56\<close>) below it, with one double in between. The value stored in \<open>c\<close>,
  printed and handed to the oracle is \<open>-48900 + 2^-37\<close> (printed as
  -48899.99999999999): within \<open>10^-11\<close> of -48900, and not equal to it.
\<close>

theorem null_margin_value:
  "c (cell7_init X (cell2 e)) = - 48900 + 1 / 2 ^ 37
   \<and> printed_c (cell7 X (cell2 e)) = - 48900 + 1 / 2 ^ 37
   \<and> lambda2 (cell2 e) = fl (1 / 10) - 2 / 2 ^ 56
   \<and> lambda2 (cell2 e) < fl (7205759403792793 / 2 ^ 56)
   \<and> fl (7205759403792793 / 2 ^ 56) < fl (1 / 10)
   \<and> \<bar>printed_c (cell7 X (cell2 e)) - (- 48900)\<bar> < 1 / 10 ^ 11"
proof -
  have v: "c (cell7_init X (cell2 e)) = - 48900 + 1 / 2 ^ 37"
    by (rule cell7_init_c_value)
  have p: "printed_c (cell7 X (cell2 e)) = - 48900 + 1 / 2 ^ 37"
    by (simp only: cell7_printed_c v)
  have l: "lambda2 (cell2 e) = fl (1 / 10) - 2 / 2 ^ 56"
    by (simp only: cell2_lambda2 literal_tenth) simp
  have m1: "lambda2 (cell2 e) < fl (7205759403792793 / 2 ^ 56)"
    by (simp only: cell2_lambda2 between_double) simp
  have m2: "fl (7205759403792793 / 2 ^ 56) < fl (1 / 10)"
    by (simp only: literal_tenth between_double) simp
  have b: "\<bar>printed_c (cell7 X (cell2 e)) - (- 48900)\<bar> < 1 / 10 ^ 11"
    by (simp only: p) simp
  from v p l m1 m2 b show ?thesis by blast
qed

section \<open>C8: the number of iterations\<close>

text \<open>
  C8: whatever the generator and the oracle return, the search cell prints at most 499
  lines, one per pass through the body and so one per oracle call; 499 is below
  \<open>ceil(10000 / 20) = 500\<close>. In general the loop makes at most one pass per candidate. The
  loop is a total function of its inputs: it ends for every oracle and every generator.
\<close>

theorem iteration_bound:
  "length (printed (cell7 X e)) \<le> 499
   \<and> length (printed (cell7 X e)) \<le> nat \<lceil>(10000 :: real) / 20\<rceil>
   \<and> length (fst (for_loop X ks e0)) \<le> length ks"
proof -
  have "length (fst (for_loop X ks e0)) \<le> length ks"
    using for_loop_length [of X ks e0 "fst (for_loop X ks e0)" "snd (for_loop X ks e0)"] by simp
  moreover have "nat \<lceil>(10000 :: real) / 20\<rceil> = 500" by simp
  ultimately show ?thesis using cell7_length [of X e] by simp
qed

section \<open>C9: reproducibility\<close>

text \<open>
  C9: the cell seeds the generator, builds \<open>pop\<close> and computes \<open>c\<close> before the loop, and
  the first pass through the body assigns \<open>n\<close>, \<open>sample\<close> and \<open>pval\<close>. So whatever the
  generator state and these variables were before (in particular after an earlier run of
  the same cell), a run with the same parameters prints the same \<open>c\<close> and the same
  \<open>(n, pvalue)\<close> lines and ends in the same way, with the same final state.
\<close>

theorem rerun_reproduces:
  "cell7 X (e\<lparr>rng := g, pop := q, c := r, n := a, sample := b, pval := d\<rparr>) = cell7 X e"
  by (simp add: cell7_def cell7_init_overwrites candidates_Cons for_loop_overwrites Let_def
        del: for_loop.simps)

section \<open>C10: what the loop leaves unchanged\<close>

text \<open>
  C10: a pass through the body, and the whole loop, change only \<open>n\<close>, \<open>sample\<close>, \<open>pval\<close>
  and the generator state; every other variable, in particular \<open>pop\<close>, \<open>N2\<close>, \<open>c\<close> and
  \<open>alpha2\<close>, keeps its value. (The step and the ceiling are literals of the \<open>range\<close>
  call, not variables.)
\<close>

theorem loop_frame:
  "(body X k e = Inr (e1, p) \<longrightarrow>
      e1 = e\<lparr>n := Some k, sample := sample e1, pval := Some p, rng := rng e1\<rparr>)
   \<and> (for_loop X ks e = (ls, Inr e') \<longrightarrow>
      e' = e\<lparr>n := n e', sample := sample e', pval := pval e', rng := rng e'\<rparr>
      \<and> pop e' = pop e \<and> N2 e' = N2 e \<and> c e' = c e \<and> alpha2 e' = alpha2 e)"
  using body_frame [of X k e e1 p] for_loop_frame [of X ks e ls e'] for_loop_fixed [of X ks e ls e']
  by blast

theorem loop_frame_witness:
  "body stub 2 tiny = Inr (tiny\<lparr>n := Some 2, sample := Some [Float 0, Float 1],
                                pval := Some (Float (1 / 2)), rng := 2\<rparr>, Float (1 / 2))
   \<and> for_loop stub [2, 4, 6] tiny =
     ([(2, Float (1 / 2)), (4, Float (1 / 4))],
      Inr (tiny\<lparr>n := Some 4, sample := Some [NaN, Float 0, Float 1, NaN],
                pval := Some (Float (1 / 4)), rng := 6\<rparr>))
   \<and> pop (tiny\<lparr>n := Some 4, sample := Some [NaN, Float 0, Float 1, NaN],
                pval := Some (Float (1 / 4)), rng := 6\<rparr>) = [Float 0, Float 1, NaN]"
  using loop_frame [of stub 2 tiny _ _ "[2, 4, 6]"
      "[(2, Float (1 / 2)), (4, Float (1 / 4))]"] tiny_run
  by (simp add: run_eval stub_def tiny_def fresh_def)

end
